theory Spec2Isabelle
  imports Complex_Main "HOL-Library.Multiset"
begin

section \<open>Values of the program\<close>

text \<open>
  A \<open>Card\<close> and a \<open>Deck\<close> are objects compared by identity: each is modelled by
  the natural number that names the instance. The argument of \<open>discard\<close> and
  \<open>locateCard\<close> is tested with \<open>Array.isArray\<close> and \<open>instanceof Card\<close>, so it is
  a value that is a card, an array of values, or anything else.
\<close>

type_synonym card = nat
type_synonym deck_ref = nat

datatype js_value = Card card | Array "js_value list" | Other

text \<open>
  Every \<open>throw new Error(...)\<close> of \<open>deck.js\<close>, one constructor for each message:
  \<^item> \<open>InvalidPileError pile\<close>: "Deck: cannot add card to unknown pile ..."
  \<^item> \<open>EmptyDeckError\<close>: "Deck: Cannot draw from deck, no cards remaining"
  \<^item> \<open>TypeNotCardError\<close>: "Value provided is not a Card instance"
  \<^item> \<open>NotMemberError\<close>: "Provided card does not belong to this deck"
  \<^item> \<open>NotFoundError\<close>: "Failed to find the given card"
\<close>

datatype error =
    InvalidPileError string
  | EmptyDeckError
  | TypeNotCardError
  | NotMemberError
  | NotFoundError

section \<open>Numbers\<close>

text \<open>
  A JavaScript number is a finite value, \<open>NaN\<close> or one of the two infinities. The
  finite values are real numbers and the one subtraction of the source,
  \<open>deck.length - count\<close>, is exact; a double gives the same result whenever the
  difference is a double itself, as it is for every whole-number count and for the
  halves used below. \<open>number_less\<close> is \<open><\<close>, \<open>number_minus\<close> is \<open>-\<close>,
  \<open>Math_max\<close> is \<open>Math.max\<close>, and \<open>trunc\<close> cuts the fraction of a finite number
  off, as every conversion of a number to an index does.
\<close>

datatype js_number = Finite real | NaN | PlusInfinity | MinusInfinity

fun number_less :: "js_number \<Rightarrow> js_number \<Rightarrow> bool" where
  "number_less NaN b = False"
| "number_less a NaN = False"
| "number_less (Finite x) (Finite y) = (x < y)"
| "number_less (Finite x) PlusInfinity = True"
| "number_less (Finite x) MinusInfinity = False"
| "number_less PlusInfinity b = False"
| "number_less MinusInfinity MinusInfinity = False"
| "number_less MinusInfinity b = True"

fun number_minus :: "js_number \<Rightarrow> js_number \<Rightarrow> js_number" where
  "number_minus NaN b = NaN"
| "number_minus a NaN = NaN"
| "number_minus (Finite x) (Finite y) = Finite (x - y)"
| "number_minus (Finite x) PlusInfinity = MinusInfinity"
| "number_minus (Finite x) MinusInfinity = PlusInfinity"
| "number_minus PlusInfinity PlusInfinity = NaN"
| "number_minus PlusInfinity b = PlusInfinity"
| "number_minus MinusInfinity MinusInfinity = NaN"
| "number_minus MinusInfinity b = MinusInfinity"

fun Math_max :: "js_number \<Rightarrow> js_number \<Rightarrow> js_number" where
  "Math_max NaN b = NaN"
| "Math_max a NaN = NaN"
| "Math_max PlusInfinity b = PlusInfinity"
| "Math_max a PlusInfinity = PlusInfinity"
| "Math_max MinusInfinity b = b"
| "Math_max a MinusInfinity = a"
| "Math_max (Finite x) (Finite y) = Finite (max x y)"

definition trunc :: "real \<Rightarrow> int" where
  "trunc x = (if x < 0 then \<lceil>x\<rceil> else \<lfloor>x\<rfloor>)"

section \<open>The built-in Set\<close>

text \<open>
  A JavaScript \<open>Set\<close> keeps its values in insertion order in a list of entries.
  \<open>delete\<close> does not shorten the list: it overwrites the entry with the marker
  "empty" (\<open>None\<close> here), and \<open>add\<close> appends a value that is not yet present.
  \<open>forEach\<close> walks the entries by index and reads the list again after every
  callback, so it sees what the callback added or deleted. No value is stored twice.
\<close>

fun live :: "'a option list \<Rightarrow> 'a list" where
  "live [] = []"
| "live (None # es) = live es"
| "live (Some x # es) = x # live es"

fun delete_entry :: "'a \<Rightarrow> 'a option list \<Rightarrow> 'a option list" where
  "delete_entry x [] = []"
| "delete_entry x (e # es) = (if e = Some x then None # es else e # delete_entry x es)"

lemma live_append: "live (es @ fs) = live es @ live fs"
  by (induction es rule: live.induct) simp_all

lemma live_delete_entry: "live (delete_entry x es) = remove1 x (live es)"
  by (induction es rule: live.induct) simp_all

lemma length_delete_entry: "length (delete_entry x es) = length es"
  by (induction es) simp_all

typedef 'a js_set = "{es :: 'a option list. distinct (live es)}"
  by (rule exI [of _ "[]"]) simp

setup_lifting type_definition_js_set

lift_definition Set_entries :: "'a js_set \<Rightarrow> 'a option list" is "\<lambda>es. es" .

lift_definition Set_empty :: "'a js_set" is "[]"
  by simp

lift_definition Set_add :: "'a \<Rightarrow> 'a js_set \<Rightarrow> 'a js_set"
  is "\<lambda>x es. if x \<in> set (live es) then es else es @ [Some x]"
  by (simp add: live_append)

lift_definition Set_delete :: "'a \<Rightarrow> 'a js_set \<Rightarrow> 'a js_set"
  is "\<lambda>x es. delete_entry x es"
  by (simp add: live_delete_entry)

definition Set_values :: "'a js_set \<Rightarrow> 'a list" where
  "Set_values s = live (Set_entries s)"

definition Set_has :: "'a \<Rightarrow> 'a js_set \<Rightarrow> bool" where
  "Set_has x s = (x \<in> set (Set_values s))"

definition Set_size :: "'a js_set \<Rightarrow> nat" where
  "Set_size s = length (Set_values s)"

text \<open>\<open>new Set(iterable)\<close> adds the values of the iterable one after the other.\<close>

definition Set_new :: "'a list \<Rightarrow> 'a js_set" where
  "Set_new xs = fold Set_add xs Set_empty"

section \<open>Arrays\<close>

text \<open>
  \<open>indexOf\<close> gives the first index of a value, or \<open>-1\<close>. \<open>array_splice\<close> is
  \<open>splice(start, count)\<close> for a start and a count that are whole and not negative: it
  gives the removed elements and what remains of the array. \<open>discard\<close> and the
  helper \<open>remove\<close> call it so, with an index that \<open>indexOf\<close> found and the count 1.
\<close>

fun indexOf :: "'a list \<Rightarrow> 'a \<Rightarrow> int" where
  "indexOf [] v = -1"
| "indexOf (x # xs) v =
     (if x = v then 0 else (let i = indexOf xs v in if i < 0 then -1 else i + 1))"

definition array_splice :: "nat \<Rightarrow> nat \<Rightarrow> 'a list \<Rightarrow> 'a list \<times> 'a list" where
  "array_splice start n xs = (take n (drop start xs), take start xs @ drop (start + n) xs)"

text \<open>
  The draw methods pass the caller's \<open>count\<close> to \<open>splice\<close>, and two of them a start
  computed from it, so there both arguments are arbitrary numbers. \<open>splice\<close> turns
  each into a whole number on its own: the start is cut to a whole number, counted
  from the end when negative, and clamped to the length (\<open>actual_start\<close>); the count
  is cut to a whole number and clamped between zero and what is left behind the start
  (\<open>actual_delete_count\<close>). \<open>NaN\<close> counts as zero.
\<close>

fun actual_start :: "nat \<Rightarrow> js_number \<Rightarrow> nat" where
  "actual_start len NaN = 0"
| "actual_start len MinusInfinity = 0"
| "actual_start len PlusInfinity = len"
| "actual_start len (Finite x) =
     (let relativeStart = trunc x
      in if relativeStart < 0 then nat (max (int len + relativeStart) 0)
         else min (nat relativeStart) len)"

fun actual_delete_count :: "nat \<Rightarrow> js_number \<Rightarrow> nat" where
  "actual_delete_count left NaN = 0"
| "actual_delete_count left MinusInfinity = 0"
| "actual_delete_count left PlusInfinity = left"
| "actual_delete_count left (Finite x) = nat (min (max (trunc x) 0) (int left))"

definition array_splice_numbers ::
  "js_number \<Rightarrow> js_number \<Rightarrow> 'a list \<Rightarrow> 'a list \<times> 'a list" where
  "array_splice_numbers start deleteCount xs =
     (let actualStart = actual_start (length xs) start;
          actualDeleteCount = actual_delete_count (length xs - actualStart) deleteCount
      in array_splice actualStart actualDeleteCount xs)"

text \<open>The helper \<open>remove(array, value)\<close> at the end of \<open>deck.js\<close>.\<close>

definition remove_value :: "'a list \<Rightarrow> 'a \<Rightarrow> 'a list" where
  "remove_value array v =
     (let index = indexOf array v
      in if index \<ge> 0 then snd (array_splice (nat index) 1 array) else array)"

section \<open>The shuffle of \<open>./rand\<close>\<close>

text \<open>
  Modelled from the spec: \<open>shuffle\<close> is imported from \<open>./rand\<close>, which is not among
  the source files. The specification describes it as an in-place uniform random
  permutation of an ordered sequence (Fisher-Yates over a pseudo-random source). The
  random source is the parameter \<open>rnd\<close>: \<open>rnd i\<close> is the number drawn at position
  \<open>i\<close>, reduced to the range \<open>0..i\<close>.
\<close>

definition swap_at :: "nat \<Rightarrow> nat \<Rightarrow> 'a list \<Rightarrow> 'a list" where
  "swap_at i j xs = xs[i := xs ! j, j := xs ! i]"

fun fisher_yates :: "(nat \<Rightarrow> nat) \<Rightarrow> nat \<Rightarrow> 'a list \<Rightarrow> 'a list" where
  "fisher_yates rnd 0 xs = xs"
| "fisher_yates rnd (Suc i) xs = fisher_yates rnd i (swap_at (Suc i) (rnd (Suc i) mod Suc (Suc i)) xs)"

definition shuffle :: "(nat \<Rightarrow> nat) \<Rightarrow> 'a list \<Rightarrow> 'a list" where
  "shuffle rnd xs = fisher_yates rnd (length xs - 1) xs"

section \<open>The state of a Deck\<close>

text \<open>
  The object that the constructor stores in the \<open>WeakMap\<close> \<open>props\<close> for each Deck:
  the Set \<open>cards\<close> and the three arrays \<open>deck\<close>, \<open>held\<close> and \<open>discard\<close>.
\<close>

record deck_props =
  cards :: "card js_set"
  deck :: "card list"
  held :: "card list"
  discard :: "card list"

definition piles :: "string set" where
  "piles = {''deck'', ''discard'', ''held''}"

text \<open>\<open>_props[pile]\<close> and \<open>_props[pile].push(card)\<close>, for a name in \<open>piles\<close>.\<close>

definition pile_of :: "string \<Rightarrow> deck_props \<Rightarrow> card list" where
  "pile_of pile p =
     (if pile = ''deck'' then deck p else if pile = ''discard'' then discard p else held p)"

definition push_pile :: "string \<Rightarrow> card \<Rightarrow> deck_props \<Rightarrow> deck_props" where
  "push_pile pile c p =
     (if pile = ''deck'' then p\<lparr>deck := deck p @ [c]\<rparr>
      else if pile = ''discard'' then p\<lparr>discard := discard p @ [c]\<rparr>
      else p\<lparr>held := held p @ [c]\<rparr>)"

section \<open>Methods that work on the state of one Deck\<close>

text \<open>
  These methods read and write only \<open>props.get(this)\<close>, so they are functions of that
  state. A method that can throw returns the outcome (\<open>Inl\<close> the error) together with
  the state it leaves behind. The parameter \<open>count\<close> of the draw methods is any
  number, written \<open>cnt\<close>.
\<close>

definition Deck_totalLength :: "deck_props \<Rightarrow> nat" where
  "Deck_totalLength p = Set_size (cards p)"

definition Deck_remainingLength :: "deck_props \<Rightarrow> nat" where
  "Deck_remainingLength p = length (deck p)"

text \<open>Both getters return \<open>props.get(this).discard.slice()\<close>.\<close>

definition Deck_held :: "deck_props \<Rightarrow> card list" where
  "Deck_held p = discard p"

definition Deck_discarded :: "deck_props \<Rightarrow> card list" where
  "Deck_discarded p = discard p"

definition Deck_draw :: "js_number \<Rightarrow> deck_props \<Rightarrow> (error + card list) \<times> deck_props" where
  "Deck_draw cnt p =
     (if length (deck p) = 0 then (Inl EmptyDeckError, p)
      else if number_less cnt (Finite 0) then (Inr [], p)
      else let (cs, rest) = array_splice_numbers (Finite 0) cnt (deck p)
           in (Inr cs, p\<lparr>deck := rest, held := held p @ cs\<rparr>))"

definition Deck_drawFromBottom ::
  "js_number \<Rightarrow> deck_props \<Rightarrow> (error + card list) \<times> deck_props" where
  "Deck_drawFromBottom cnt p =
     (if length (deck p) = 0 then (Inl EmptyDeckError, p)
      else if number_less cnt (Finite 0) then (Inr [], p)
      else let start = Math_max (number_minus (Finite (real (length (deck p)))) cnt) (Finite 0);
               (removed, rest) = array_splice_numbers start cnt (deck p);
               cs = rev removed
           in (Inr cs, p\<lparr>deck := rest, held := held p @ cs\<rparr>))"

definition Deck_drawToDiscard :: "js_number \<Rightarrow> deck_props \<Rightarrow> (error + card list) \<times> deck_props" where
  "Deck_drawToDiscard cnt p =
     (if length (deck p) = 0 then (Inl EmptyDeckError, p)
      else if number_less cnt (Finite 0) then (Inr [], p)
      else let (cs, rest) = array_splice_numbers (Finite 0) cnt (deck p)
           in (Inr cs, p\<lparr>deck := rest, discard := discard p @ cs\<rparr>))"

definition Deck_drawToDiscardFromBottom ::
  "js_number \<Rightarrow> deck_props \<Rightarrow> (error + card list) \<times> deck_props" where
  "Deck_drawToDiscardFromBottom cnt p =
     (if length (deck p) = 0 then (Inl EmptyDeckError, p)
      else if number_less cnt (Finite 0) then (Inr [], p)
      else let start = Math_max (number_minus (Finite (real (length (deck p)))) cnt) (Finite 0);
               (removed, rest) = array_splice_numbers start cnt (deck p);
               cs = rev removed
           in (Inr cs, p\<lparr>deck := rest, discard := discard p @ cs\<rparr>))"

text \<open>The four draw methods, for statements that hold of each of them.\<close>

definition draw_family :: "(js_number \<Rightarrow> deck_props \<Rightarrow> (error + card list) \<times> deck_props) list" where
  "draw_family = [Deck_draw, Deck_drawFromBottom, Deck_drawToDiscard, Deck_drawToDiscardFromBottom]"

text \<open>
  \<open>discard\<close> calls itself on every element of an array; an element that throws ends
  the \<open>forEach\<close>, and the elements before it stay discarded.
\<close>

fun Deck_discard :: "js_value \<Rightarrow> deck_props \<Rightarrow> (error + unit) \<times> deck_props"
  and discard_forEach :: "js_value list \<Rightarrow> deck_props \<Rightarrow> (error + unit) \<times> deck_props" where
  "Deck_discard (Array vs) p = discard_forEach vs p"
| "Deck_discard Other p = (Inl TypeNotCardError, p)"
| "Deck_discard (Card c) p =
     (if \<not> Set_has c (cards p) then (Inl NotMemberError, p)
      else let deckIndex = indexOf (deck p) c
           in if deckIndex \<ge> 0
              then (Inr (), p\<lparr>deck := snd (array_splice (nat deckIndex) 1 (deck p)),
                               discard := discard p @ [c]\<rparr>)
              else let heldIndex = indexOf (held p) c
                   in if heldIndex \<ge> 0
                      then (Inr (), p\<lparr>held := snd (array_splice (nat heldIndex) 1 (held p)),
                                       discard := discard p @ [c]\<rparr>)
                      else (Inr (), p))"
| "discard_forEach [] p = (Inr (), p)"
| "discard_forEach (v # vs) p =
     (case Deck_discard v p of
        (Inl e, p') \<Rightarrow> (Inl e, p')
      | (Inr u, p') \<Rightarrow> discard_forEach vs p')"

text \<open>The descriptor \<open>{ pile, index, card }\<close> is the triple of its three fields.\<close>

definition Deck_locateCard :: "js_value \<Rightarrow> deck_props \<Rightarrow> error + (string \<times> int \<times> card)" where
  "Deck_locateCard v p =
     (case v of
        Card c \<Rightarrow>
          if \<not> Set_has c (cards p) then Inl NotMemberError
          else let deckIndex = indexOf (deck p) c
               in if deckIndex \<ge> 0 then Inr (''deck'', deckIndex, c)
                  else let heldIndex = indexOf (held p) c
                       in if heldIndex \<ge> 0 then Inr (''held'', heldIndex, c)
                          else let discardIndex = indexOf (discard p) c
                               in if discardIndex \<ge> 0 then Inr (''discard'', discardIndex, c)
                                  else Inl NotFoundError
      | _ \<Rightarrow> Inl TypeNotCardError)"

definition Deck_shuffleAll :: "(nat \<Rightarrow> nat) \<Rightarrow> deck_props \<Rightarrow> deck_props" where
  "Deck_shuffleAll rnd p =
     p\<lparr>deck := shuffle rnd ((deck p @ held p) @ discard p), held := [], discard := []\<rparr>"

definition Deck_shuffleRemaining :: "(nat \<Rightarrow> nat) \<Rightarrow> deck_props \<Rightarrow> deck_props" where
  "Deck_shuffleRemaining rnd p = p\<lparr>deck := shuffle rnd (deck p)\<rparr>"

definition Deck_shuffleDiscard :: "(nat \<Rightarrow> nat) \<Rightarrow> deck_props \<Rightarrow> deck_props" where
  "Deck_shuffleDiscard rnd p = p\<lparr>deck := deck p @ shuffle rnd (discard p), discard := []\<rparr>"

definition Deck_shuffleDeckAndDiscard :: "(nat \<Rightarrow> nat) \<Rightarrow> deck_props \<Rightarrow> deck_props" where
  "Deck_shuffleDeckAndDiscard rnd p = p\<lparr>deck := shuffle rnd (deck p @ discard p), discard := []\<rparr>"

definition Deck_discardAllHeld :: "deck_props \<Rightarrow> deck_props" where
  "Deck_discardAllHeld p = p\<lparr>discard := discard p @ held p, held := []\<rparr>"

text \<open>
  The callback of \<open>findCards\<close> only tests a card and pushes it, so the \<open>forEach\<close> of
  the Set visits the stored values in insertion order.
\<close>

definition Deck_findCards :: "(card \<Rightarrow> bool) \<Rightarrow> deck_props \<Rightarrow> card list" where
  "Deck_findCards f p = filter f (Set_values (cards p))"

section \<open>Decks and cards as objects\<close>

text \<open>
  The methods below also write the field \<open>deck\<close> of a card (its back-reference to
  the Deck that owns it) or the state of a second Deck, so they work on the store:
  \<open>props\<close> is the \<open>WeakMap\<close> from each Deck to its state and \<open>card_deck c\<close> is
  the field \<open>c.deck\<close> (\<open>None\<close> for \<open>null\<close>).
\<close>

record world =
  props :: "deck_ref \<Rightarrow> deck_props"
  card_deck :: "card \<Rightarrow> deck_ref option"

definition Deck_constructor :: "deck_ref \<Rightarrow> card list \<Rightarrow> world \<Rightarrow> world" where
  "Deck_constructor this cs w =
     w\<lparr>props := (props w)(this := \<lparr>cards = Set_new cs, deck = cs, held = [], discard = []\<rparr>),
       card_deck := fold (\<lambda>c m. m(c \<mapsto> this)) cs (card_deck w)\<rparr>"

definition Deck_add :: "deck_ref \<Rightarrow> card \<Rightarrow> string \<Rightarrow> world \<Rightarrow> (error + unit) \<times> world" where
  "Deck_add this c pile w =
     (if pile \<notin> piles then (Inl (InvalidPileError pile), w)
      else let p = props w this
           in (Inr (),
               w\<lparr>card_deck := (card_deck w)(c \<mapsto> this),
                 props := (props w)(this := push_pile pile c (p\<lparr>cards := Set_add c (cards p)\<rparr>))\<rparr>))"

definition Deck_remove :: "deck_ref \<Rightarrow> card \<Rightarrow> world \<Rightarrow> world" where
  "Deck_remove this c w =
     (let p = props w this
      in w\<lparr>props := (props w)(this :=
             p\<lparr>cards := Set_delete c (cards p),
               deck := remove_value (deck p) c,
               discard := remove_value (discard p) c,
               held := remove_value (held p) c\<rparr>),
           card_deck := (card_deck w)(c := None)\<rparr>)"

text \<open>
  \<open>merge\<close> runs \<open>cards.forEach\<close> on the Set of the other Deck while the callback
  deletes from that Set: the loop goes through the entries by index and reads the Set
  again at every step. When both Decks are the same object the callback appends to the
  Set it walks, and the loop need not end: not returning is the value \<open>None\<close>.
  The parameter \<open>deck\<close> of \<open>merge\<close> is written \<open>other\<close>.
\<close>

partial_function (option) merge_forEach ::
  "deck_ref \<Rightarrow> deck_ref \<Rightarrow> string \<Rightarrow> nat \<Rightarrow> world \<Rightarrow> ((error + unit) \<times> world) option" where
  "merge_forEach this other pile index w =
     (let entries = Set_entries (cards (props w other))
      in if index < length entries
         then (case entries ! index of
                 None \<Rightarrow> merge_forEach this other pile (index + 1) w
               | Some c \<Rightarrow>
                   (case Deck_add this c pile (Deck_remove other c w) of
                      (Inl e, w') \<Rightarrow> Some (Inl e, w')
                    | (Inr u, w') \<Rightarrow> merge_forEach this other pile (index + 1) w'))
         else Some (Inr (), w))"

definition Deck_merge ::
  "deck_ref \<Rightarrow> deck_ref \<Rightarrow> string \<Rightarrow> world \<Rightarrow> ((error + unit) \<times> world) option" where
  "Deck_merge this other pile w = merge_forEach this other pile 0 w"

text \<open>
  The specification describes \<open>merge\<close> differently: it takes the cards of the other
  Deck's Set as a snapshot before any mutation and, for each card of the snapshot in
  order, removes it from the other Deck and adds it to this one. This second
  definition follows those words; it is compared with the code's loop below.
\<close>

fun merge_snapshot ::
  "deck_ref \<Rightarrow> deck_ref \<Rightarrow> string \<Rightarrow> card list \<Rightarrow> world \<Rightarrow> (error + unit) \<times> world" where
  "merge_snapshot this other pile [] w = (Inr (), w)"
| "merge_snapshot this other pile (c # cs) w =
     (case Deck_add this c pile (Deck_remove other c w) of
        (Inl e, w') \<Rightarrow> (Inl e, w')
      | (Inr u, w') \<Rightarrow> merge_snapshot this other pile cs w')"

definition Deck_merge_snapshot ::
  "deck_ref \<Rightarrow> deck_ref \<Rightarrow> string \<Rightarrow> world \<Rightarrow> (error + unit) \<times> world" where
  "Deck_merge_snapshot this other pile w =
     merge_snapshot this other pile (Set_values (cards (props w other))) w"

text \<open>
  A store for examples: every Deck is as \<open>new Deck()\<close> leaves it and no card has an
  owner.
\<close>

definition fresh_world :: world where
  "fresh_world =
     \<lparr>props = (\<lambda>d. \<lparr>cards = Set_empty, deck = [], held = [], discard = []\<rparr>),
      card_deck = (\<lambda>c. None)\<rparr>"

section \<open>Sequences of method calls\<close>

text \<open>
  A call of a public method on a Deck of the store: the constructor and the sixteen
  methods of the class. \<open>exec\<close> gives the store that a call leaves behind, whether
  it returned or threw (\<open>None\<close> when the call does not return), and \<open>run\<close>
  executes a sequence of calls.
\<close>

datatype method_call =
    New deck_ref "card list"
  | Add deck_ref card string
  | Remove deck_ref card
  | Merge deck_ref deck_ref string
  | Draw deck_ref js_number
  | DrawFromBottom deck_ref js_number
  | DrawToDiscard deck_ref js_number
  | DrawToDiscardFromBottom deck_ref js_number
  | Discard deck_ref js_value
  | LocateCard deck_ref js_value
  | ShuffleAll deck_ref "nat \<Rightarrow> nat"
  | ShuffleRemaining deck_ref "nat \<Rightarrow> nat"
  | ShuffleDiscard deck_ref "nat \<Rightarrow> nat"
  | ShuffleDeckAndDiscard deck_ref "nat \<Rightarrow> nat"
  | DiscardAllHeld deck_ref
  | FindCards deck_ref "card \<Rightarrow> bool"

definition on_deck :: "deck_ref \<Rightarrow> (deck_props \<Rightarrow> deck_props) \<Rightarrow> world \<Rightarrow> world" where
  "on_deck d f w = w\<lparr>props := (props w)(d := f (props w d))\<rparr>"

fun exec :: "method_call \<Rightarrow> world \<Rightarrow> world option" where
  "exec (New d cs) w = Some (Deck_constructor d cs w)"
| "exec (Add d c pile) w = Some (snd (Deck_add d c pile w))"
| "exec (Remove d c) w = Some (Deck_remove d c w)"
| "exec (Merge d other pile) w = map_option snd (Deck_merge d other pile w)"
| "exec (Draw d n) w = Some (on_deck d (\<lambda>p. snd (Deck_draw n p)) w)"
| "exec (DrawFromBottom d n) w = Some (on_deck d (\<lambda>p. snd (Deck_drawFromBottom n p)) w)"
| "exec (DrawToDiscard d n) w = Some (on_deck d (\<lambda>p. snd (Deck_drawToDiscard n p)) w)"
| "exec (DrawToDiscardFromBottom d n) w =
     Some (on_deck d (\<lambda>p. snd (Deck_drawToDiscardFromBottom n p)) w)"
| "exec (Discard d v) w = Some (on_deck d (\<lambda>p. snd (Deck_discard v p)) w)"
| "exec (LocateCard d v) w = Some w"
| "exec (ShuffleAll d rnd) w = Some (on_deck d (Deck_shuffleAll rnd) w)"
| "exec (ShuffleRemaining d rnd) w = Some (on_deck d (Deck_shuffleRemaining rnd) w)"
| "exec (ShuffleDiscard d rnd) w = Some (on_deck d (Deck_shuffleDiscard rnd) w)"
| "exec (ShuffleDeckAndDiscard d rnd) w = Some (on_deck d (Deck_shuffleDeckAndDiscard rnd) w)"
| "exec (DiscardAllHeld d) w = Some (on_deck d Deck_discardAllHeld w)"
| "exec (FindCards d f) w = Some w"

fun run :: "method_call list \<Rightarrow> world \<Rightarrow> world option" where
  "run [] w = Some w"
| "run (a # as) w = (case exec a w of None \<Rightarrow> None | Some w' \<Rightarrow> run as w')"

text \<open>
  The calls that cannot put a card into the piles of Deck \<open>x\<close> a second time: no
  other constructor runs on \<open>x\<close>, \<open>add\<close> with a valid pile name is not given a card
  that \<open>x\<close> already has, and a \<open>merge\<close> into \<open>x\<close> with a valid pile name comes from
  another Deck that shares no card with \<open>x\<close>. \<open>guarded x calls w\<close> says that every
  call of the sequence is such a call in the store where it runs.
\<close>

fun allowed :: "deck_ref \<Rightarrow> method_call \<Rightarrow> world \<Rightarrow> bool" where
  "allowed x (New d cs) w = (d \<noteq> x)"
| "allowed x (Add d c pile) w = (d = x \<and> pile \<in> piles \<longrightarrow> \<not> Set_has c (cards (props w x)))"
| "allowed x (Merge d other pile) w =
     (d = x \<and> other \<noteq> x \<and> pile \<in> piles \<longrightarrow>
        (\<forall>c \<in> set (Set_values (cards (props w other))). \<not> Set_has c (cards (props w x))))"
| "allowed x a w = True"

fun guarded :: "deck_ref \<Rightarrow> method_call list \<Rightarrow> world \<Rightarrow> bool" where
  "guarded x [] w = True"
| "guarded x (a # as) w =
     (allowed x a w \<and> (case exec a w of None \<Rightarrow> True | Some w' \<Rightarrow> guarded x as w'))"

text \<open>
  The invariant of the data model, in the words of the specification: every card of
  the set of cards is exactly once in the three piles together, and the lengths of
  the piles add up to the number of cards. \<open>deck_inv\<close> says the same with
  multisets, the form in which it is proved.
\<close>

definition pile_invariant :: "deck_props \<Rightarrow> bool" where
  "pile_invariant p \<longleftrightarrow>
     (\<forall>c \<in> set (Set_values (cards p)).
        count_list (deck p) c + count_list (held p) c + count_list (discard p) c = 1) \<and>
     length (deck p) + length (held p) + length (discard p) = Deck_totalLength p"

definition deck_inv :: "deck_props \<Rightarrow> bool" where
  "deck_inv p \<longleftrightarrow> mset (deck p) + mset (held p) + mset (discard p) = mset (Set_values (cards p))"

text \<open>
  A sequence of calls for Deck 0, and two stores that the public methods reach.
  \<open>added_twice\<close> is the store after \<open>d = new Deck([c])\<close> and \<open>d.add(c)\<close>: the
  second \<open>add\<close> pushed \<open>c\<close> on the draw pile again. \<open>stale_card_world\<close> is that
  store after \<open>d.remove(c)\<close>, which took one of the two away. \<open>in_two_piles\<close> is
  the state of the Deck after \<open>d = new Deck([c])\<close> and \<open>d.add(c, 'discard')\<close>. Here
  \<open>d\<close> is Deck 0 and \<open>c\<close> is card 7.
\<close>

definition example_calls :: "method_call list" where
  "example_calls =
     [New 1 [5, 6], Add 0 7 ''held'', Merge 0 1 ''discard'',
      DrawFromBottom 0 (Finite (3 / 2)), Draw 0 (Finite 1),
      Discard 0 (Array [Card 4, Card 9]), Remove 0 3, DrawToDiscard 0 NaN,
      ShuffleDiscard 0 (\<lambda>i. 0), DiscardAllHeld 0, Merge 0 1 ''bogus'']"

definition added_twice :: world where
  "added_twice = snd (Deck_add 0 7 ''deck'' (Deck_constructor 0 [7] fresh_world))"

definition stale_card_world :: world where
  "stale_card_world = Deck_remove 0 7 added_twice"

definition in_two_piles :: deck_props where
  "in_two_piles = props (snd (Deck_add 0 7 ''discard'' (Deck_constructor 0 [7] fresh_world))) 0"

declare merge_forEach.simps [code]

section \<open>Facts about the Set\<close>

lemma Set_entries_empty [simp]: "Set_entries Set_empty = []"
  by transfer simp

lemma Set_entries_add [simp]:
  "Set_entries (Set_add x s) =
     (if x \<in> set (live (Set_entries s)) then Set_entries s else Set_entries s @ [Some x])"
  by transfer simp

lemma Set_entries_delete [simp]: "Set_entries (Set_delete x s) = delete_entry x (Set_entries s)"
  by transfer simp

lemma Set_entries_inject: "Set_entries s = Set_entries t \<longleftrightarrow> s = t"
  by transfer simp

lemma distinct_Set_values [simp]: "distinct (Set_values s)"
  unfolding Set_values_def by transfer simp

lemma Set_values_empty [simp]: "Set_values Set_empty = []"
  by (simp add: Set_values_def)

lemma Set_values_add:
  "Set_values (Set_add x s) = (if x \<in> set (Set_values s) then Set_values s else Set_values s @ [x])"
  by (simp add: Set_values_def live_append)

lemma Set_values_delete: "Set_values (Set_delete x s) = remove1 x (Set_values s)"
  by (simp add: Set_values_def live_delete_entry)

lemma delete_entry_absent: "x \<notin> set (live es) \<Longrightarrow> delete_entry x es = es"
  by (induction es rule: live.induct) auto

lemma Set_delete_absent: "x \<notin> set (Set_values s) \<Longrightarrow> Set_delete x s = s"
  by (simp add: Set_entries_inject [symmetric] Set_values_def delete_entry_absent)

lemma filter_eq_remove1_distinct: "distinct xs \<Longrightarrow> filter (\<lambda>x. x = c) (remove1 c xs) = []"
  by (simp add: filter_empty_conv)

lemma Some_in_entries: "Some x \<in> set es \<longleftrightarrow> x \<in> set (live es)"
  by (induction es rule: live.induct) auto

lemma delete_entry_at:
  "distinct (live es) \<Longrightarrow> i < length es \<Longrightarrow> es ! i = Some x \<Longrightarrow> delete_entry x es = es[i := None]"
proof (induction es arbitrary: i)
  case Nil
  then show ?case by simp
next
  case (Cons e es)
  show ?case
  proof (cases i)
    case 0
    with Cons.prems show ?thesis by simp
  next
    case (Suc j)
    with Cons.prems have j: "j < length es" "es ! j = Some x" by simp_all
    then have "Some x \<in> set es" by (metis nth_mem)
    then have "x \<in> set (live es)" by (simp add: Some_in_entries)
    with Cons.prems(1) have ne: "e \<noteq> Some x" by (cases e) auto
    from Cons.prems(1) have "distinct (live es)" by (cases e) auto
    with Cons.IH j have "delete_entry x es = es[j := None]" by simp
    with ne Suc show ?thesis by simp
  qed
qed

lemma live_drop_step:
  "i < length es \<Longrightarrow> live (drop i es) = (case es ! i of None \<Rightarrow> [] | Some x \<Rightarrow> [x]) @ live (drop (Suc i) es)"
  by (simp add: Cons_nth_drop_Suc [symmetric] split: option.split)

lemma distinct_live_entries: "distinct (live (Set_entries s))"
  using distinct_Set_values [of s] by (simp add: Set_values_def)

section \<open>Facts about arrays and piles\<close>


lemma trunc_zero [simp]: "trunc 0 = 0"
  by (simp add: trunc_def)

lemma trunc_numeral [simp]: "trunc (numeral k) = numeral k"
  by (simp add: trunc_def)

lemma trunc_one [simp]: "trunc 1 = 1"
  by (simp add: trunc_def)

lemma indexOf_neg_iff: "indexOf xs v < 0 \<longleftrightarrow> v \<notin> set xs"
  by (induction xs) (auto simp: Let_def)

lemma splice_indexOf:
  "v \<in> set xs \<Longrightarrow> snd (array_splice (nat (indexOf xs v)) (Suc 0) xs) = remove1 v xs"
proof (induction xs)
  case Nil
  then show ?case by simp
next
  case (Cons x xs)
  show ?case
  proof (cases "x = v")
    case True
    then show ?thesis by (simp add: array_splice_def)
  next
    case False
    with Cons.prems have v: "v \<in> set xs" by simp
    then have nn: "0 \<le> indexOf xs v" using indexOf_neg_iff [of xs v] by simp
    then have "nat (indexOf xs v + 1) = Suc (nat (indexOf xs v))" by simp
    with False nn Cons.IH [OF v] show ?thesis
      by (simp add: array_splice_def Let_def)
  qed
qed

lemma remove_value_remove1: "remove_value xs v = remove1 v xs"
proof (cases "v \<in> set xs")
  case True
  then have "0 \<le> indexOf xs v" using indexOf_neg_iff [of xs v] by simp
  with True show ?thesis by (simp add: remove_value_def splice_indexOf)
next
  case False
  then have "indexOf xs v < 0" by (simp add: indexOf_neg_iff)
  with False show ?thesis by (simp add: remove_value_def remove1_idem)
qed

lemma fold_remove1_self: "fold remove1 xs xs = []"
  by (induction xs) simp_all

lemma pile_of_push_pile:
  "pile \<in> piles \<Longrightarrow> pile_of pile (push_pile pile c p) = pile_of pile p @ [c]"
  by (auto simp: piles_def pile_of_def push_pile_def)

lemma pile_of_cards_update [simp]: "pile_of pile (p\<lparr>cards := s\<rparr>) = pile_of pile p"
  by (simp add: pile_of_def)

lemma cards_push_pile [simp]: "cards (push_pile pile c p) = cards p"
  by (simp add: push_pile_def)

section \<open>Facts about the shuffle\<close>

lemma mset_fisher_yates: "i < length xs \<Longrightarrow> mset (fisher_yates rnd i xs) = mset xs"
proof (induction i arbitrary: xs)
  case 0
  then show ?case by simp
next
  case (Suc i)
  have j: "rnd (Suc i) mod Suc (Suc i) < length xs"
    using Suc.prems
    by (meson less_trans_Suc mod_less_divisor order_less_le_trans zero_less_Suc Suc_leI)
  have "mset (swap_at (Suc i) (rnd (Suc i) mod Suc (Suc i)) xs) = mset xs"
    unfolding swap_at_def using Suc.prems j by (simp add: mset_swap)
  moreover have "i < length (swap_at (Suc i) (rnd (Suc i) mod Suc (Suc i)) xs)"
    using Suc.prems by (simp add: swap_at_def)
  ultimately show ?case using Suc.IH by simp
qed

lemma mset_shuffle: "mset (shuffle rnd xs) = mset xs"
proof (cases xs)
  case Nil
  then show ?thesis by (simp add: shuffle_def)
next
  case (Cons x ys)
  then show ?thesis by (simp add: shuffle_def mset_fisher_yates)
qed

section \<open>The accessors \<open>held\<close> and \<open>discarded\<close>\<close>

text \<open>
  C1. The documentation of the getter \<open>held\<close> promises a copy of the held pile, but
  the getter reads the array \<open>discard\<close>, as \<open>discarded\<close> does: for every Deck both
  return the discard pile. After \<open>new Deck([c])\<close> and \<open>draw(1)\<close> the held pile is
  \<open>[c]\<close> and the getter \<open>held\<close> returns the empty sequence.
\<close>

theorem held_getter_reads_discard:
  "Deck_held p = discard p \<and> Deck_discarded p = discard p \<and>
   (let q = snd (Deck_draw (Finite 1) (props (Deck_constructor this [c] w) this))
    in held q = [c] \<and> Deck_held q = [])"
  by (simp add: Deck_held_def Deck_discarded_def Deck_draw_def Deck_constructor_def
      array_splice_numbers_def array_splice_def)

section \<open>The draw family\<close>

text \<open>
  C4. Each of \<open>draw\<close>, \<open>drawFromBottom\<close>, \<open>drawToDiscard\<close> and
  \<open>drawToDiscardFromBottom\<close> throws the empty-deck error exactly when the draw pile is
  empty at the call, whatever number the count is (on an empty pile it throws and
  leaves the state as it was, on a pile with a card it returns a sequence), and with a
  pile that is not empty and a count below zero it returns the empty sequence and
  leaves the set of cards and the three piles unchanged.
\<close>

theorem draw_family_empty_and_negative:
  assumes "f \<in> set draw_family"
  shows "(deck p = [] \<longrightarrow> f n p = (Inl EmptyDeckError, p)) \<and>
         (deck p \<noteq> [] \<longrightarrow> (\<exists>cs q. f n p = (Inr cs, q))) \<and>
         (deck p \<noteq> [] \<and> number_less n (Finite 0) \<longrightarrow> f n p = (Inr [], p))"
  using assms
  by (auto simp: draw_family_def Deck_draw_def Deck_drawFromBottom_def Deck_drawToDiscard_def
      Deck_drawToDiscardFromBottom_def Let_def split: prod.splits)

theorem draw_family_empty_and_negative_witness:
  "Deck_drawToDiscardFromBottom \<in> set draw_family \<and>
   Deck_drawToDiscardFromBottom (Finite 5) \<lparr>cards = Set_new [], deck = [], held = [], discard = []\<rparr> =
     (Inl EmptyDeckError, \<lparr>cards = Set_new [], deck = [], held = [], discard = []\<rparr>) \<and>
   number_less (Finite (- 3)) (Finite 0) \<and>
   Deck_drawToDiscardFromBottom (Finite (- 3))
       \<lparr>cards = Set_new [1, 2], deck = [1], held = [2], discard = []\<rparr> =
     (Inr [], \<lparr>cards = Set_new [1, 2], deck = [1], held = [2], discard = []\<rparr>) \<and>
   number_less MinusInfinity (Finite 0) \<and>
   Deck_drawToDiscardFromBottom MinusInfinity
       \<lparr>cards = Set_new [1, 2], deck = [1], held = [2], discard = []\<rparr> =
     (Inr [], \<lparr>cards = Set_new [1, 2], deck = [1], held = [2], discard = []\<rparr>)"
proof -
  have m: "Deck_drawToDiscardFromBottom \<in> set draw_family"
    by (simp add: draw_family_def)
  show ?thesis
    using m
      draw_family_empty_and_negative [OF m, of "\<lparr>cards = Set_new [], deck = [], held = [], discard = []\<rparr>" "Finite 5"]
      draw_family_empty_and_negative [OF m, of "\<lparr>cards = Set_new [1, 2], deck = [1], held = [2], discard = []\<rparr>" "Finite (- 3)"]
      draw_family_empty_and_negative [OF m, of "\<lparr>cards = Set_new [1, 2], deck = [1], held = [2], discard = []\<rparr>" MinusInfinity]
    by simp
qed




section \<open>The loop of \<open>merge\<close>\<close>

lemma merge_forEach_invalid_pile:
  assumes "pile \<notin> piles"
    and "live (drop i (Set_entries (cards (props w other)))) = c # cs"
  shows "merge_forEach this other pile i w =
           Some (Inl (InvalidPileError pile), Deck_remove other c w)"
  using assms(2)
proof (induction "length (Set_entries (cards (props w other))) - i" arbitrary: i)
  case 0
  then show ?case by simp
next
  case (Suc k)
  let ?es = "Set_entries (cards (props w other))"
  from Suc.hyps(2) have i: "i < length ?es" by simp
  show ?case
  proof (cases "?es ! i")
    case None
    with Suc.prems i have "live (drop (Suc i) ?es) = c # cs"
      by (simp add: live_drop_step)
    moreover from Suc.hyps(2) have "k = length ?es - Suc i" by simp
    ultimately have "merge_forEach this other pile (Suc i) w =
        Some (Inl (InvalidPileError pile), Deck_remove other c w)"
      using Suc.hyps(1) by blast
    with None i show ?thesis
      by (subst merge_forEach.simps) simp
  next
    case (Some x)
    with Suc.prems i have "x = c" by (simp add: live_drop_step)
    with Some i assms(1) show ?thesis
      by (subst merge_forEach.simps) (simp add: Deck_add_def)
  qed
qed

lemma add_remove_step:
  assumes "pile \<in> piles"
  shows "Deck_add this c pile (Deck_remove other c w) =
     (Inr (), snd (Deck_add this c pile (Deck_remove other c w)))"
  using assms by (simp add: Deck_add_def Let_def)

lemma other_entries_step:
  assumes "this \<noteq> other" "pile \<in> piles"
  shows "Set_entries (cards (props (snd (Deck_add this c pile (Deck_remove other c w))) other)) =
           delete_entry c (Set_entries (cards (props w other)))"
  using assms by (simp add: Deck_add_def Deck_remove_def Let_def)

lemma merge_forEach_snapshot:
  assumes "this \<noteq> other" "pile \<in> piles"
  shows "merge_forEach this other pile i w =
           Some (merge_snapshot this other pile
                   (live (drop i (Set_entries (cards (props w other))))) w)"
proof (induction "length (Set_entries (cards (props w other))) - i" arbitrary: i w)
  case 0
  then show ?case by (subst merge_forEach.simps) simp
next
  case (Suc k)
  let ?es = "Set_entries (cards (props w other))"
  from Suc.hyps(2) have i: "i < length ?es" by simp
  show ?case
  proof (cases "?es ! i")
    case None
    from Suc.hyps(2) have "k = length ?es - Suc i" by simp
    then have "merge_forEach this other pile (Suc i) w =
        Some (merge_snapshot this other pile (live (drop (Suc i) ?es)) w)"
      using Suc.hyps(1) by blast
    with None i show ?thesis
      by (subst merge_forEach.simps) (simp add: live_drop_step)
  next
    case (Some x)
    obtain w' where step: "Deck_add this x pile (Deck_remove other x w) = (Inr (), w')"
      using add_remove_step [OF assms(2)] by blast
    let ?es' = "Set_entries (cards (props w' other))"
    have "?es' = delete_entry x ?es"
      using other_entries_step [OF assms, of x w] step by simp
    then have es': "?es' = ?es[i := None]"
      using i Some by (simp add: delete_entry_at distinct_live_entries)
    then have "k = length ?es' - Suc i" using Suc.hyps(2) by simp
    then have "merge_forEach this other pile (Suc i) w' =
        Some (merge_snapshot this other pile (live (drop (Suc i) ?es')) w')"
      using Suc.hyps(1) by blast
    moreover have "drop (Suc i) ?es' = drop (Suc i) ?es"
      using es' by simp
    ultimately have rec: "merge_forEach this other pile (Suc i) w' =
        Some (merge_snapshot this other pile (live (drop (Suc i) ?es)) w')"
      by simp
    have live: "live (drop i ?es) = x # live (drop (Suc i) ?es)"
      using i Some by (simp add: live_drop_step)
    show ?thesis
      by (subst merge_forEach.simps) (simp add: i Some live rec step)
  qed
qed

lemma merge_snapshot_result:
  assumes "this \<noteq> other" "pile \<in> piles"
  shows "\<exists>w'. merge_snapshot this other pile cs w = (Inr (), w') \<and>
           pile_of pile (props w' this) = pile_of pile (props w this) @ cs \<and>
           set (Set_values (cards (props w' this))) = set (Set_values (cards (props w this))) \<union> set cs \<and>
           Set_values (cards (props w' other)) = fold remove1 cs (Set_values (cards (props w other)))"
proof (induction cs arbitrary: w)
  case Nil
  then show ?case by simp
next
  case (Cons c cs)
  obtain w1 where step: "Deck_add this c pile (Deck_remove other c w) = (Inr (), w1)"
    using add_remove_step [OF assms(2)] by blast
  then have w1: "w1 = snd (Deck_add this c pile (Deck_remove other c w))" by simp
  have a: "pile_of pile (props w1 this) = pile_of pile (props w this) @ [c]"
    unfolding w1 using assms by (simp add: Deck_add_def Deck_remove_def Let_def pile_of_push_pile)
  have b: "set (Set_values (cards (props w1 this))) = set (Set_values (cards (props w this))) \<union> {c}"
    unfolding w1 using assms by (auto simp: Deck_add_def Deck_remove_def Let_def Set_values_add)
  have c: "Set_values (cards (props w1 other)) = remove1 c (Set_values (cards (props w other)))"
    unfolding w1 using assms by (simp add: Deck_add_def Deck_remove_def Let_def Set_values_delete)
  from Cons.IH [of w1] obtain w' where
    "merge_snapshot this other pile cs w1 = (Inr (), w')"
    "pile_of pile (props w' this) = pile_of pile (props w1 this) @ cs"
    "set (Set_values (cards (props w' this))) = set (Set_values (cards (props w1 this))) \<union> set cs"
    "Set_values (cards (props w' other)) = fold remove1 cs (Set_values (cards (props w1 other)))"
    by blast
  with a b c step show ?case by auto
qed

text \<open>
  When a Deck that has a card is merged into itself with a valid pile name, every card
  that the callback removes is appended to the Set again, behind the position of the
  loop: the call never returns.
\<close>

lemma merge_forEach_self:
  assumes returns: "merge_forEach this other pile i w = Some r"
  shows "this = other \<Longrightarrow> pile \<in> piles \<Longrightarrow>
         live (drop i (Set_entries (cards (props w other)))) = []"
proof (induction rule: merge_forEach.raw_induct [OF _ returns])
  case (1 loop this other pile i w r)
  let ?es = "Set_entries (cards (props w other))"
  show ?case
  proof (cases "i < length ?es")
    case False
    then show ?thesis by simp
  next
    case True
    show ?thesis
    proof (cases "?es ! i")
      case None
      with True "1.hyps" have "loop this other pile (i + 1) w = Some r"
        by (simp add: Let_def)
      from "1.IH" [OF this "1.prems"] None True show ?thesis
        by (simp add: live_drop_step [of i])
    next
      case (Some c)
      obtain w2 where add: "Deck_add this c pile (Deck_remove other c w) = (Inr (), w2)"
        using add_remove_step [OF "1.prems"(2)] by blast
      then have w2: "w2 = snd (Deck_add this c pile (Deck_remove other c w))" by simp
      from True Some "1.hyps" add have "loop this other pile (i + 1) w2 = Some r"
        by (simp add: Let_def)
      from "1.IH" [OF this "1.prems"]
      have empty: "live (drop (i + 1) (Set_entries (cards (props w2 other)))) = []" .
      have "c \<notin> set (live (delete_entry c ?es))"
        by (simp add: live_delete_entry distinct_live_entries)
      then have "Set_entries (cards (props w2 other)) = delete_entry c ?es @ [Some c]"
        using "1.prems" by (simp add: w2 Deck_add_def Deck_remove_def Let_def)
      with True have "live (drop (i + 1) (Set_entries (cards (props w2 other)))) =
          live (drop (i + 1) (delete_entry c ?es)) @ [c]"
        by (simp add: length_delete_entry live_append)
      with empty show ?thesis by simp
    qed
  qed
qed

lemma merge_into_itself_never_returns:
  assumes "pile \<in> piles" "Set_values (cards (props w this)) \<noteq> []"
  shows "Deck_merge this this pile w = None"
proof (cases "Deck_merge this this pile w")
  case None
  then show ?thesis .
next
  case (Some r)
  then have "merge_forEach this this pile 0 w = Some r" by (simp add: Deck_merge_def)
  from merge_forEach_self [OF this refl assms(1)] assms(2) show ?thesis
    by (simp add: Set_values_def)
qed

text \<open>
  C3. For two different Decks and every valid pile name, \<open>merge\<close> returns without
  throwing, and its loop over the live Set does exactly what an iteration over a
  snapshot of the other Deck's cards, taken before any mutation, does. Afterwards the
  other Deck's set of cards is empty, this Deck's set of cards has gained all the
  cards the other Deck had, and the named pile of this Deck is its old content
  followed by those cards in the order of the snapshot.
\<close>

theorem merge_moves_all_cards:
  assumes "this \<noteq> other" "pile \<in> piles"
  shows "\<exists>w'. Deck_merge this other pile w = Some (Inr (), w') \<and>
           Deck_merge_snapshot this other pile w = (Inr (), w') \<and>
           Set_values (cards (props w' other)) = [] \<and>
           set (Set_values (cards (props w' this))) =
             set (Set_values (cards (props w this))) \<union> set (Set_values (cards (props w other))) \<and>
           pile_of pile (props w' this) =
             pile_of pile (props w this) @ Set_values (cards (props w other))"
proof -
  from merge_snapshot_result [OF assms, of "Set_values (cards (props w other))" w]
  obtain w' where
    r: "merge_snapshot this other pile (Set_values (cards (props w other))) w = (Inr (), w')"
    and p: "pile_of pile (props w' this) =
      pile_of pile (props w this) @ Set_values (cards (props w other))"
    and s: "set (Set_values (cards (props w' this))) =
      set (Set_values (cards (props w this))) \<union> set (Set_values (cards (props w other)))"
    and e: "Set_values (cards (props w' other)) =
      fold remove1 (Set_values (cards (props w other))) (Set_values (cards (props w other)))"
    by blast
  have "Deck_merge this other pile w = Some (Inr (), w')"
    using merge_forEach_snapshot [OF assms, of 0 w] r
    by (simp add: Deck_merge_def Set_values_def)
  with r p s e show ?thesis
    by (simp add: Deck_merge_snapshot_def fold_remove1_self)
qed

theorem merge_moves_all_cards_witness:
  "(0::nat) \<noteq> 6 \<and> ''held'' \<in> piles \<and>
   (\<exists>w'. Deck_merge 0 6 ''held''
            (Deck_constructor 6 [4, 5] (Deck_constructor 0 [2, 3] fresh_world)) = Some (Inr (), w') \<and>
      Deck_merge_snapshot 0 6 ''held''
            (Deck_constructor 6 [4, 5] (Deck_constructor 0 [2, 3] fresh_world)) = (Inr (), w') \<and>
      Set_values (cards (props w' 6)) = [] \<and>
      set (Set_values (cards (props w' 0))) = {2, 3, 4, 5} \<and>
      held (props w' 0) = [4, 5])"
proof -
  let ?w = "Deck_constructor 6 [4, 5] (Deck_constructor 0 [2, 3] fresh_world)"
  have d: "(0::nat) \<noteq> 6" by simp
  have v: "''held'' \<in> piles" by (simp add: piles_def)
  have before: "Set_values (cards (props ?w 0)) = [2, 3]" "Set_values (cards (props ?w 6)) = [4, 5]"
    "held (props ?w 0) = []"
    by (simp_all add: Deck_constructor_def fresh_world_def Set_new_def Set_values_def)
  from merge_moves_all_cards [OF d v, of ?w] d v show ?thesis
    by (auto simp: before pile_of_def)
qed

text \<open>
  For one Deck merged into itself the loop over the live Set and an iteration over a
  snapshot part ways: with Deck 0 constructed from card 7, \<open>merge\<close> of the Deck into
  itself never returns, while the iteration over the snapshot \<open>[7]\<close> would return
  after one step, without an error, with the card in the draw pile.
\<close>

theorem merge_into_itself_counterexample:
  "''deck'' \<in> piles \<and>
   Set_values (cards (props (Deck_constructor 0 [7] fresh_world) 0)) = [7] \<and>
   Deck_merge 0 0 ''deck'' (Deck_constructor 0 [7] fresh_world) = None \<and>
   fst (Deck_merge_snapshot 0 0 ''deck'' (Deck_constructor 0 [7] fresh_world)) = Inr () \<and>
   deck (props (snd (Deck_merge_snapshot 0 0 ''deck'' (Deck_constructor 0 [7] fresh_world))) 0) = [7]"
proof -
  have v: "''deck'' \<in> piles" by (simp add: piles_def)
  have c: "Set_values (cards (props (Deck_constructor 0 [7] fresh_world) 0)) = [7]"
    by (simp add: Deck_constructor_def fresh_world_def Set_new_def Set_values_def)
  then have "Set_values (cards (props (Deck_constructor 0 [7] fresh_world) 0)) \<noteq> []" by simp
  with v have "Deck_merge 0 0 ''deck'' (Deck_constructor 0 [7] fresh_world) = None"
    by (rule merge_into_itself_never_returns)
  moreover have
    "fst (Deck_merge_snapshot 0 0 ''deck'' (Deck_constructor 0 [7] fresh_world)) = Inr ()"
    "deck (props (snd (Deck_merge_snapshot 0 0 ''deck'' (Deck_constructor 0 [7] fresh_world))) 0) = [7]"
    by (simp_all add: Deck_merge_snapshot_def Set_values_def Set_new_def Deck_add_def
        Deck_remove_def Deck_constructor_def fresh_world_def piles_def push_pile_def Let_def
        remove_value_def array_splice_def)
  ultimately show ?thesis using v c by simp
qed

text \<open>
  C10. \<open>merge\<close> is not atomic: with a pile name outside the valid set and another
  Deck that has at least one card, the call throws the invalid-pile error, and the
  store it leaves behind is the one in which the first card of the iteration has been
  removed from the other Deck: the card is gone from the other Deck's set of cards and
  from its piles, and its back-reference is cleared.
\<close>

theorem merge_invalid_pile_not_atomic:
  assumes "pile \<notin> piles" "Set_values (cards (props w other)) = c # cs"
  shows "Deck_merge this other pile w = Some (Inl (InvalidPileError pile), Deck_remove other c w) \<and>
         Set_values (cards (props (Deck_remove other c w) other)) = cs \<and>
         deck (props (Deck_remove other c w) other) = remove1 c (deck (props w other)) \<and>
         held (props (Deck_remove other c w) other) = remove1 c (held (props w other)) \<and>
         discard (props (Deck_remove other c w) other) = remove1 c (discard (props w other)) \<and>
         card_deck (Deck_remove other c w) c = None"
proof -
  have "Deck_merge this other pile w = Some (Inl (InvalidPileError pile), Deck_remove other c w)"
    using merge_forEach_invalid_pile [OF assms(1), of 0 w other c cs this] assms(2)
    by (simp add: Deck_merge_def Set_values_def)
  moreover have "Set_values (cards (props (Deck_remove other c w) other)) = cs"
    using assms(2) by (simp add: Deck_remove_def Let_def Set_values_delete)
  ultimately show ?thesis
    by (simp add: Deck_remove_def Let_def remove_value_remove1)
qed

theorem merge_invalid_pile_not_atomic_witness:
  "''bogus'' \<notin> piles \<and>
   Set_values (cards (props (Deck_constructor 1 [4, 5] fresh_world) 1)) = [4, 5] \<and>
   card_deck (Deck_constructor 1 [4, 5] fresh_world) 4 = Some 1 \<and>
   Deck_merge 0 1 ''bogus'' (Deck_constructor 1 [4, 5] fresh_world) =
     Some (Inl (InvalidPileError ''bogus''), Deck_remove 1 4 (Deck_constructor 1 [4, 5] fresh_world)) \<and>
   Set_values (cards (props (Deck_remove 1 4 (Deck_constructor 1 [4, 5] fresh_world)) 1)) = [5] \<and>
   deck (props (Deck_remove 1 4 (Deck_constructor 1 [4, 5] fresh_world)) 1) = [5] \<and>
   card_deck (Deck_remove 1 4 (Deck_constructor 1 [4, 5] fresh_world)) 4 = None"
proof -
  have b: "''bogus'' \<notin> piles" by (simp add: piles_def)
  have v: "Set_values (cards (props (Deck_constructor 1 [4, 5] fresh_world) 1)) = [4, 5]"
    by (simp add: Deck_constructor_def fresh_world_def Set_new_def Set_values_def)
  show ?thesis
    using b v merge_invalid_pile_not_atomic [OF b v, of 0]
    by (simp add: Deck_constructor_def fresh_world_def)
qed

section \<open>Removing a card\<close>

text \<open>
  C9. \<open>remove\<close> clears the back-reference of the card whatever the card is, also
  when the card is not in this Deck's set of cards; the state of every other Deck is
  untouched, so a Deck that owns the card still holds it afterwards.
\<close>

theorem remove_clears_back_reference:
  "card_deck (Deck_remove this c w) c = None \<and>
   (other \<noteq> this \<longrightarrow> props (Deck_remove this c w) other = props w other)"
  by (simp add: Deck_remove_def Let_def)

theorem remove_clears_back_reference_witness:
  "(1::nat) \<noteq> 0 \<and>
   card_deck (Deck_constructor 1 [5] fresh_world) 5 = Some 1 \<and>
   \<not> Set_has 5 (cards (props (Deck_constructor 1 [5] fresh_world) 0)) \<and>
   card_deck (Deck_remove 0 5 (Deck_constructor 1 [5] fresh_world)) 5 = None \<and>
   Set_has 5 (cards (props (Deck_remove 0 5 (Deck_constructor 1 [5] fresh_world)) 1))"
  using remove_clears_back_reference [of 0 5 "Deck_constructor 1 [5] fresh_world" 1]
  by (simp add: Deck_constructor_def fresh_world_def Set_has_def Set_values_def Set_new_def)

text \<open>
  C8. After \<open>remove(card)\<close> of a card that is in the Deck's set of cards,
  \<open>findCards\<close> with the test "is this card" returns the empty sequence and
  \<open>totalLength\<close> is smaller by exactly one. \<open>remove\<close> never throws. For a card that
  is neither in the set of cards nor in any of the three piles it leaves the set of
  cards and the piles of every Deck unchanged.
\<close>

theorem remove_member_or_absent:
  "(Set_has c (cards (props w this)) \<longrightarrow>
      Deck_findCards (\<lambda>x. x = c) (props (Deck_remove this c w) this) = [] \<and>
      Deck_totalLength (props (Deck_remove this c w) this) + 1 = Deck_totalLength (props w this)) \<and>
   (\<not> Set_has c (cards (props w this)) \<and> c \<notin> set (deck (props w this)) \<and>
    c \<notin> set (held (props w this)) \<and> c \<notin> set (discard (props w this)) \<longrightarrow>
      props (Deck_remove this c w) = props w)"
proof -
  have find: "Deck_findCards (\<lambda>x. x = c) (props (Deck_remove this c w) this) = []"
    by (simp add: Deck_findCards_def Deck_remove_def Let_def Set_values_delete
        filter_eq_remove1_distinct)
  have size: "Set_has c (cards (props w this)) \<Longrightarrow>
      Deck_totalLength (props (Deck_remove this c w) this) + 1 = Deck_totalLength (props w this)"
  proof -
    assume "Set_has c (cards (props w this))"
    then have m: "c \<in> set (Set_values (cards (props w this)))" by (simp add: Set_has_def)
    then have "0 < length (Set_values (cards (props w this)))" by (cases "Set_values (cards (props w this))") auto
    with m show ?thesis
      by (simp add: Deck_totalLength_def Set_size_def Deck_remove_def Let_def Set_values_delete
          length_remove1)
  qed
  have absent: "\<not> Set_has c (cards (props w this)) \<and> c \<notin> set (deck (props w this)) \<and>
    c \<notin> set (held (props w this)) \<and> c \<notin> set (discard (props w this)) \<Longrightarrow>
      props (Deck_remove this c w) = props w"
    by (simp add: Deck_remove_def Let_def Set_has_def Set_delete_absent remove_value_remove1
        remove1_idem)
  from find size absent show ?thesis by blast
qed

theorem remove_member_or_absent_witness:
  "Set_has 3 (cards (props (Deck_constructor 0 [2, 3, 4] fresh_world) 0)) \<and>
   Deck_findCards (\<lambda>x. x = 3) (props (Deck_remove 0 3 (Deck_constructor 0 [2, 3, 4] fresh_world)) 0) = [] \<and>
   Deck_totalLength (props (Deck_constructor 0 [2, 3, 4] fresh_world) 0) = 3 \<and>
   Deck_totalLength (props (Deck_remove 0 3 (Deck_constructor 0 [2, 3, 4] fresh_world)) 0) = 2 \<and>
   \<not> Set_has 9 (cards (props (Deck_constructor 0 [2, 3, 4] fresh_world) 0)) \<and>
   9 \<notin> set (deck (props (Deck_constructor 0 [2, 3, 4] fresh_world) 0)) \<and>
   9 \<notin> set (held (props (Deck_constructor 0 [2, 3, 4] fresh_world) 0)) \<and>
   9 \<notin> set (discard (props (Deck_constructor 0 [2, 3, 4] fresh_world) 0)) \<and>
   props (Deck_remove 0 9 (Deck_constructor 0 [2, 3, 4] fresh_world)) =
     props (Deck_constructor 0 [2, 3, 4] fresh_world)"
proof -
  have v: "Set_values (cards (props (Deck_constructor 0 [2, 3, 4] fresh_world) 0)) = [2, 3, 4]"
    by (simp add: Deck_constructor_def fresh_world_def Set_new_def Set_values_def)
  have d: "deck (props (Deck_constructor 0 [2, 3, 4] fresh_world) 0) = [2, 3, 4]"
    "held (props (Deck_constructor 0 [2, 3, 4] fresh_world) 0) = []"
    "discard (props (Deck_constructor 0 [2, 3, 4] fresh_world) 0) = []"
    by (simp_all add: Deck_constructor_def)
  show ?thesis
    using remove_member_or_absent [of 3 "Deck_constructor 0 [2, 3, 4] fresh_world" 0]
      remove_member_or_absent [of 9 "Deck_constructor 0 [2, 3, 4] fresh_world" 0]
    by (simp add: v d Set_has_def Deck_totalLength_def Set_size_def)
qed

text \<open>
  A card that is not in the set of cards can still be in a pile, and \<open>remove\<close> then
  takes it out of the pile: in \<open>stale_card_world\<close> card 7 is not a member of Deck 0
  and the draw pile is \<open>[7]\<close>; after \<open>remove\<close> the draw pile is empty.
\<close>

theorem remove_absent_card_changes_pile_counterexample:
  "\<not> Set_has 7 (cards (props stale_card_world 0)) \<and>
   deck (props stale_card_world 0) = [7] \<and>
   deck (props (Deck_remove 0 7 stale_card_world) 0) = []"
  by (simp add: stale_card_world_def added_twice_def Deck_remove_def Deck_add_def Deck_constructor_def
      fresh_world_def piles_def push_pile_def Let_def Set_has_def Set_values_def Set_new_def
      remove_value_def array_splice_def)

section \<open>Discarding\<close>

text \<open>
  C5. \<open>discard\<close> throws the not-a-card error for a value that is neither a card nor
  an array, and the not-a-member error for a card that is not in the set of cards;
  both leave the state as it was. A member card that is in the draw pile is taken out
  of it and appended to the discard pile; one that is not in the draw pile but in the
  held pile is taken out of the held pile and appended to the discard pile; one that
  is in neither of the two changes nothing. An array is discarded element after
  element, each on the state its predecessor left, up to the first element that
  throws.
\<close>

theorem discard_semantics:
  "Deck_discard Other p = (Inl TypeNotCardError, p) \<and>
   (\<not> Set_has c (cards p) \<longrightarrow> Deck_discard (Card c) p = (Inl NotMemberError, p)) \<and>
   (Set_has c (cards p) \<and> c \<in> set (deck p) \<longrightarrow>
      Deck_discard (Card c) p =
        (Inr (), p\<lparr>deck := remove1 c (deck p), discard := discard p @ [c]\<rparr>)) \<and>
   (Set_has c (cards p) \<and> c \<notin> set (deck p) \<and> c \<in> set (held p) \<longrightarrow>
      Deck_discard (Card c) p =
        (Inr (), p\<lparr>held := remove1 c (held p), discard := discard p @ [c]\<rparr>)) \<and>
   (Set_has c (cards p) \<and> c \<notin> set (deck p) \<and> c \<notin> set (held p) \<longrightarrow>
      Deck_discard (Card c) p = (Inr (), p)) \<and>
   Deck_discard (Array []) p = (Inr (), p) \<and>
   Deck_discard (Array (v # vs)) p =
     (case Deck_discard v p of
        (Inl e, p') \<Rightarrow> (Inl e, p')
      | (Inr u, p') \<Rightarrow> Deck_discard (Array vs) p')"
proof -
  have in_deck: "c \<in> set (deck p) \<Longrightarrow> 0 \<le> indexOf (deck p) c"
    using indexOf_neg_iff [of "deck p" c] by simp
  have not_deck: "c \<notin> set (deck p) \<Longrightarrow> \<not> 0 \<le> indexOf (deck p) c"
    using indexOf_neg_iff [of "deck p" c] by simp
  have in_held: "c \<in> set (held p) \<Longrightarrow> 0 \<le> indexOf (held p) c"
    using indexOf_neg_iff [of "held p" c] by simp
  have not_held: "c \<notin> set (held p) \<Longrightarrow> \<not> 0 \<le> indexOf (held p) c"
    using indexOf_neg_iff [of "held p" c] by simp
  show ?thesis
    by (simp add: Let_def in_deck not_deck in_held not_held splice_indexOf
        split: prod.split sum.split)
qed

theorem discard_semantics_witness:
  "Set_has 1 (cards \<lparr>cards = Set_new [1, 2, 3], deck = [1], held = [2], discard = [3]\<rparr>) \<and>
   Deck_discard (Card 1) \<lparr>cards = Set_new [1, 2, 3], deck = [1], held = [2], discard = [3]\<rparr> =
     (Inr (), \<lparr>cards = Set_new [1, 2, 3], deck = [], held = [2], discard = [3, 1]\<rparr>) \<and>
   Deck_discard (Card 2) \<lparr>cards = Set_new [1, 2, 3], deck = [1], held = [2], discard = [3]\<rparr> =
     (Inr (), \<lparr>cards = Set_new [1, 2, 3], deck = [1], held = [], discard = [3, 2]\<rparr>) \<and>
   Deck_discard (Card 3) \<lparr>cards = Set_new [1, 2, 3], deck = [1], held = [2], discard = [3]\<rparr> =
     (Inr (), \<lparr>cards = Set_new [1, 2, 3], deck = [1], held = [2], discard = [3]\<rparr>) \<and>
   \<not> Set_has 9 (cards \<lparr>cards = Set_new [1, 2, 3], deck = [1], held = [2], discard = [3]\<rparr>) \<and>
   Deck_discard (Card 9) \<lparr>cards = Set_new [1, 2, 3], deck = [1], held = [2], discard = [3]\<rparr> =
     (Inl NotMemberError, \<lparr>cards = Set_new [1, 2, 3], deck = [1], held = [2], discard = [3]\<rparr>) \<and>
   Deck_discard (Array [Card 1, Card 9, Card 2])
       \<lparr>cards = Set_new [1, 2, 3], deck = [1], held = [2], discard = [3]\<rparr> =
     (Inl NotMemberError, \<lparr>cards = Set_new [1, 2, 3], deck = [], held = [2], discard = [3, 1]\<rparr>)"
proof -
  have h: "Set_has 1 (cards \<lparr>cards = Set_new [1, 2, 3], deck = [1], held = [2], discard = [3]\<rparr>)"
    "Set_has 2 (cards \<lparr>cards = Set_new [1, 2, 3], deck = [1], held = [2], discard = [3]\<rparr>)"
    "Set_has 3 (cards \<lparr>cards = Set_new [1, 2, 3], deck = [1], held = [2], discard = [3]\<rparr>)"
    "\<not> Set_has 9 (cards \<lparr>cards = Set_new [1, 2, 3], deck = [1], held = [2], discard = [3]\<rparr>)"
    by (simp_all add: Set_has_def Set_values_def Set_new_def)
  have h': "\<not> Set_has 9 (cards \<lparr>cards = Set_new [1, 2, 3], deck = [], held = [2], discard = [3, 1]\<rparr>)"
    by (simp add: Set_has_def Set_values_def Set_new_def)
  show ?thesis
    using h h'
      discard_semantics [of "\<lparr>cards = Set_new [1, 2, 3], deck = [1], held = [2], discard = [3]\<rparr>" 1]
      discard_semantics [of "\<lparr>cards = Set_new [1, 2, 3], deck = [1], held = [2], discard = [3]\<rparr>" 2]
      discard_semantics [of "\<lparr>cards = Set_new [1, 2, 3], deck = [1], held = [2], discard = [3]\<rparr>" 3]
      discard_semantics [of "\<lparr>cards = Set_new [1, 2, 3], deck = [1], held = [2], discard = [3]\<rparr>" 9
        "Card 1" "[Card 9, Card 2]"]
      discard_semantics [of "\<lparr>cards = Set_new [1, 2, 3], deck = [], held = [2], discard = [3, 1]\<rparr>" 9
        "Card 9" "[Card 2]"]
    by simp
qed

text \<open>
  A card that is already in the discard pile is moved all the same when it is also in
  the draw pile: in \<open>in_two_piles\<close> card 7 is a member, in the draw pile and in the
  discard pile, and \<open>discard\<close> empties the draw pile and appends the card to the
  discard pile a second time.
\<close>

theorem discard_moves_discarded_card_counterexample:
  "Set_has 7 (cards in_two_piles) \<and> 7 \<in> set (discard in_two_piles) \<and>
   deck in_two_piles = [7] \<and> discard in_two_piles = [7] \<and>
   fst (Deck_discard (Card 7) in_two_piles) = Inr () \<and>
   deck (snd (Deck_discard (Card 7) in_two_piles)) = [] \<and>
   discard (snd (Deck_discard (Card 7) in_two_piles)) = [7, 7]"
  by (simp add: in_two_piles_def Deck_add_def Deck_constructor_def fresh_world_def piles_def
      push_pile_def Let_def Set_has_def Set_values_def Set_new_def array_splice_def)

section \<open>The pile invariant\<close>

lemma count_list_mset: "count_list xs x = count (mset xs) x"
  by (induction xs) auto

lemma deck_inv_pile_invariant:
  assumes "deck_inv p"
  shows "pile_invariant p"
proof -
  let ?v = "Set_values (cards p)"
  from assms have eq: "mset (deck p) + mset (held p) + mset (discard p) = mset ?v"
    by (simp add: deck_inv_def)
  have "count_list (deck p) c + count_list (held p) c + count_list (discard p) c = 1"
    if "c \<in> set ?v" for c
  proof -
    have "count_list (deck p) c + count_list (held p) c + count_list (discard p) c
        = count (mset (deck p) + mset (held p) + mset (discard p)) c"
      by (simp add: count_list_mset)
    also have "\<dots> = count (mset ?v) c" by (simp add: eq)
    also have "\<dots> = 1" using that by (simp add: distinct_count_atmost_1 [THEN iffD1])
    finally show ?thesis .
  qed
  moreover have "length (deck p) + length (held p) + length (discard p) = Deck_totalLength p"
  proof -
    have "length (deck p) + length (held p) + length (discard p)
        = size (mset (deck p) + mset (held p) + mset (discard p))" by simp
    also have "\<dots> = size (mset ?v)" by (simp add: eq)
    finally show ?thesis by (simp add: Deck_totalLength_def Set_size_def)
  qed
  ultimately show ?thesis by (simp add: pile_invariant_def)
qed

lemma mset_array_splice:
  "mset (fst (array_splice s n xs)) + mset (snd (array_splice s n xs)) = mset xs"
proof -
  have "mset (take n (drop s xs)) + mset (drop n (drop s xs)) = mset (drop s xs)"
    by (metis append_take_drop_id mset_append)
  moreover have "mset (take s xs) + mset (drop s xs) = mset xs"
    by (metis append_take_drop_id mset_append)
  ultimately show ?thesis
    by (simp add: array_splice_def add.commute add.left_commute)
qed

lemma mset_array_splice_numbers:
  "mset (fst (array_splice_numbers start cnt xs)) + mset (snd (array_splice_numbers start cnt xs)) =
     mset xs"
  by (simp add: array_splice_numbers_def Let_def mset_array_splice)

lemma deck_inv_draw: "deck_inv p \<Longrightarrow> deck_inv (snd (Deck_draw n p))"
  using mset_array_splice_numbers [of "Finite 0" n "deck p"]
  by (auto simp: Deck_draw_def deck_inv_def Let_def split: prod.splits)
    (metis add.assoc add.commute)+

lemma deck_inv_drawFromBottom: "deck_inv p \<Longrightarrow> deck_inv (snd (Deck_drawFromBottom n p))"
  using mset_array_splice_numbers
    [of "Math_max (number_minus (Finite (real (length (deck p)))) n) (Finite 0)" n "deck p"]
  by (auto simp: Deck_drawFromBottom_def deck_inv_def Let_def split: prod.splits)
    (metis add.assoc add.commute)+

lemma deck_inv_drawToDiscard: "deck_inv p \<Longrightarrow> deck_inv (snd (Deck_drawToDiscard n p))"
  using mset_array_splice_numbers [of "Finite 0" n "deck p"]
  by (auto simp: Deck_drawToDiscard_def deck_inv_def Let_def split: prod.splits)
    (metis add.assoc add.commute)+

lemma deck_inv_drawToDiscardFromBottom:
  "deck_inv p \<Longrightarrow> deck_inv (snd (Deck_drawToDiscardFromBottom n p))"
  using mset_array_splice_numbers
    [of "Math_max (number_minus (Finite (real (length (deck p)))) n) (Finite 0)" n "deck p"]
  by (auto simp: Deck_drawToDiscardFromBottom_def deck_inv_def Let_def split: prod.splits)
    (metis add.assoc add.commute)+

lemma deck_inv_discard_card: "deck_inv p \<Longrightarrow> deck_inv (snd (Deck_discard (Card c) p))"
proof -
  assume inv: "deck_inv p"
  have d: "0 \<le> indexOf (deck p) c \<Longrightarrow> c \<in> set (deck p)"
    using indexOf_neg_iff [of "deck p" c] by auto
  have h: "0 \<le> indexOf (held p) c \<Longrightarrow> c \<in> set (held p)"
    using indexOf_neg_iff [of "held p" c] by auto
  show ?thesis
    using inv d h by (auto simp: deck_inv_def Let_def splice_indexOf Set_has_def)
qed

lemma deck_inv_discard:
  "deck_inv p \<Longrightarrow> deck_inv (snd (Deck_discard v p))"
  "deck_inv p \<Longrightarrow> deck_inv (snd (discard_forEach vs p))"
proof (induction v p and vs p rule: Deck_discard_discard_forEach.induct)
  case (1 vs p)
  then show ?case by simp
next
  case (2 p)
  then show ?case by simp
next
  case (3 c p)
  then show ?case using deck_inv_discard_card [of p c] by simp
next
  case (4 p)
  then show ?case by simp
next
  case (5 v vs p)
  show ?case
  proof (cases "Deck_discard v p")
    case (Pair r p')
    with "5.IH"(1) "5.prems" have inv': "deck_inv p'" by simp
    show ?thesis
    proof (cases r)
      case (Inl e)
      with Pair inv' show ?thesis by simp
    next
      case (Inr u)
      with Pair inv' "5.IH"(2) show ?thesis by simp
    qed
  qed
qed

lemma deck_inv_shuffleAll: "deck_inv p \<Longrightarrow> deck_inv (Deck_shuffleAll rnd p)"
  by (simp add: deck_inv_def Deck_shuffleAll_def mset_shuffle add.assoc)

lemma deck_inv_shuffleRemaining: "deck_inv p \<Longrightarrow> deck_inv (Deck_shuffleRemaining rnd p)"
  by (simp add: deck_inv_def Deck_shuffleRemaining_def mset_shuffle)

lemma deck_inv_shuffleDiscard: "deck_inv p \<Longrightarrow> deck_inv (Deck_shuffleDiscard rnd p)"
  by (auto simp: deck_inv_def Deck_shuffleDiscard_def mset_shuffle) (metis add.assoc add.commute)

lemma deck_inv_shuffleDeckAndDiscard:
  "deck_inv p \<Longrightarrow> deck_inv (Deck_shuffleDeckAndDiscard rnd p)"
  by (auto simp: deck_inv_def Deck_shuffleDeckAndDiscard_def mset_shuffle)
    (metis add.assoc add.commute)

lemma deck_inv_discardAllHeld: "deck_inv p \<Longrightarrow> deck_inv (Deck_discardAllHeld p)"
  unfolding deck_inv_def Deck_discardAllHeld_def by (auto simp: union_ac)


lemma Set_values_fold_add:
  "distinct cs \<Longrightarrow> set cs \<inter> set (Set_values s) = {} \<Longrightarrow>
     Set_values (fold Set_add cs s) = Set_values s @ cs"
proof (induction cs arbitrary: s)
  case Nil
  then show ?case by simp
next
  case (Cons c cs)
  from Cons.prems have v: "Set_values (Set_add c s) = Set_values s @ [c]"
    by (simp add: Set_values_add)
  from Cons.prems have "distinct cs" "set cs \<inter> set (Set_values (Set_add c s)) = {}"
    by (auto simp: v)
  with Cons.IH [of "Set_add c s"] show ?case by (simp add: v)
qed

lemma Set_values_new: "distinct cs \<Longrightarrow> Set_values (Set_new cs) = cs"
  using Set_values_fold_add [of cs Set_empty] by (simp add: Set_new_def)

lemma deck_inv_constructor:
  "distinct cs \<Longrightarrow> deck_inv (props (Deck_constructor x cs w) x)"
  by (simp add: deck_inv_def Deck_constructor_def Set_values_new)

lemma props_on_deck: "props (on_deck d f w) x = (if d = x then f (props w x) else props w x)"
  by (simp add: on_deck_def)

lemma props_add_other: "d \<noteq> x \<Longrightarrow> props (snd (Deck_add d c pile w)) x = props w x"
  by (simp add: Deck_add_def Let_def)

lemma add_invalid_pile: "pile \<notin> piles \<Longrightarrow> Deck_add d c pile w = (Inl (InvalidPileError pile), w)"
  by (simp add: Deck_add_def)

lemma props_remove_other: "d \<noteq> x \<Longrightarrow> props (Deck_remove d c w) x = props w x"
  by (simp add: Deck_remove_def Let_def)

lemma mset_push_pile:
  "pile \<in> piles \<Longrightarrow>
     mset (deck (push_pile pile c p)) + mset (held (push_pile pile c p)) +
       mset (discard (push_pile pile c p)) =
     add_mset c (mset (deck p) + mset (held p) + mset (discard p))"
  by (auto simp: piles_def push_pile_def)

lemma deck_inv_add:
  assumes "deck_inv (props w x)" "pile \<in> piles" "\<not> Set_has c (cards (props w x))"
  shows "deck_inv (props (snd (Deck_add x c pile w)) x)"
proof -
  let ?p = "(props w x)\<lparr>cards := Set_add c (cards (props w x))\<rparr>"
  have p: "props (snd (Deck_add x c pile w)) x = push_pile pile c ?p"
    using assms(2) by (simp add: Deck_add_def Let_def)
  have "mset (deck (push_pile pile c ?p)) + mset (held (push_pile pile c ?p)) +
       mset (discard (push_pile pile c ?p)) =
     add_mset c (mset (deck ?p) + mset (held ?p) + mset (discard ?p))"
    by (rule mset_push_pile [OF assms(2)])
  moreover have "Set_values (cards (push_pile pile c ?p)) = Set_values (cards (props w x)) @ [c]"
    using assms(3) by (simp add: Set_has_def Set_values_add)
  ultimately show ?thesis
    using assms(1) unfolding p deck_inv_def by simp
qed

lemma mset_remove1_three:
  assumes "A + B + C = V" "count V c \<le> 1"
  shows "(A - {#c#}) + (B - {#c#}) + (C - {#c#}) = V - {#c#}"
proof (rule multiset_eqI)
  fix x
  have "count A c + count B c + count C c \<le> 1"
    using assms by (metis count_union)
  then show "count ((A - {#c#}) + (B - {#c#}) + (C - {#c#})) x = count (V - {#c#}) x"
    using assms(1) by (cases "x = c") auto
qed

lemma deck_inv_remove:
  assumes "deck_inv (props w x)"
  shows "deck_inv (props (Deck_remove x c w) x)"
proof -
  let ?p = "props w x"
  have "count (mset (Set_values (cards ?p))) c \<le> 1"
    using distinct_Set_values [of "cards ?p"] by (simp add: distinct_count_atmost_1)
  with assms have "(mset (deck ?p) - {#c#}) + (mset (held ?p) - {#c#}) + (mset (discard ?p) - {#c#}) =
      mset (Set_values (cards ?p)) - {#c#}"
    unfolding deck_inv_def by (rule mset_remove1_three)
  then show ?thesis
    by (simp add: deck_inv_def Deck_remove_def Let_def remove_value_remove1 Set_values_delete)
qed


lemma distinct_live_drop: "distinct (live es) \<Longrightarrow> distinct (live (drop i es))"
  by (metis append_take_drop_id distinct_append live_append)

lemma Set_has_add: "Set_has y (Set_add c s) \<longleftrightarrow> y = c \<or> Set_has y s"
  by (auto simp: Set_has_def Set_values_add)

lemma Set_has_delete_same: "\<not> Set_has c (Set_delete c s)"
  by (simp add: Set_has_def Set_values_delete)

lemma merge_forEach_inv:
  assumes returns: "merge_forEach this other pile i w = Some r"
  shows "deck_inv (props w x) \<Longrightarrow>
         (x = this \<and> this \<noteq> other \<and> pile \<in> piles \<longrightarrow>
           (\<forall>c \<in> set (live (drop i (Set_entries (cards (props w other))))).
              \<not> Set_has c (cards (props w x)))) \<Longrightarrow>
         deck_inv (props (snd r) x)"
proof (induction rule: merge_forEach.raw_induct [OF _ returns])
  case (1 loop this other pile i w r)
  let ?es = "Set_entries (cards (props w other))"
  show ?case
  proof (cases "i < length ?es")
    case False
    with "1.hyps" "1.prems" show ?thesis by (auto simp: Let_def)
  next
    case True
    show ?thesis
    proof (cases "?es ! i")
      case None
      with True "1.hyps" have call: "loop this other pile (i + 1) w = Some r"
        by (simp add: Let_def)
      have "set (live (drop (i + 1) ?es)) \<subseteq> set (live (drop i ?es))"
        using True by (simp add: live_drop_step [of i])
      with "1.prems"(2) have
        "x = this \<and> this \<noteq> other \<and> pile \<in> piles \<longrightarrow>
           (\<forall>c \<in> set (live (drop (i + 1) ?es)). \<not> Set_has c (cards (props w x)))"
        by blast
      with "1.IH" [OF call "1.prems"(1)] show ?thesis by blast
    next
      case (Some c)
      let ?w1 = "Deck_remove other c w"
      have live_i: "live (drop i ?es) = c # live (drop (Suc i) ?es)"
        using True Some by (simp add: live_drop_step)
      have inv1: "deck_inv (props ?w1 x)"
        using "1.prems"(1) by (cases "x = other") (simp_all add: deck_inv_remove props_remove_other)
      show ?thesis
      proof (cases "pile \<in> piles")
        case False
        with True Some "1.hyps" have "r = (Inl (InvalidPileError pile), ?w1)"
          by (simp add: Let_def add_invalid_pile)
        with inv1 show ?thesis by simp
      next
        case valid: True
        obtain w2 where add: "Deck_add this c pile ?w1 = (Inr (), w2)"
          using add_remove_step [OF valid] by blast
        then have w2: "w2 = snd (Deck_add this c pile ?w1)" by simp
        from True Some "1.hyps" add have call: "loop this other pile (i + 1) w2 = Some r"
          by (simp add: Let_def)
        have inv2: "deck_inv (props w2 x)"
        proof (cases "x = this")
          case False
          with inv1 show ?thesis by (simp add: w2 props_add_other)
        next
          case x: True
          have "\<not> Set_has c (cards (props ?w1 this))"
          proof (cases "this = other")
            case True
            then show ?thesis by (simp add: Deck_remove_def Let_def Set_has_delete_same)
          next
            case False
            with "1.prems"(2) x valid live_i have "\<not> Set_has c (cards (props w this))" by simp
            with False show ?thesis by (simp add: props_remove_other)
          qed
          with inv1 x valid show ?thesis by (simp add: w2 deck_inv_add)
        qed
        have guard2: "x = this \<and> this \<noteq> other \<and> pile \<in> piles \<longrightarrow>
           (\<forall>y \<in> set (live (drop (i + 1) (Set_entries (cards (props w2 other))))).
              \<not> Set_has y (cards (props w2 x)))"
        proof (intro impI ballI)
          fix y
          assume a: "x = this \<and> this \<noteq> other \<and> pile \<in> piles"
            and y: "y \<in> set (live (drop (i + 1) (Set_entries (cards (props w2 other)))))"
          from a have es2: "Set_entries (cards (props w2 other)) = ?es[i := None]"
            using True Some
            by (simp add: w2 other_entries_step delete_entry_at distinct_live_entries)
          with y have y': "y \<in> set (live (drop (Suc i) ?es))" by simp
          have "distinct (live (drop i ?es))"
            by (simp add: distinct_live_drop distinct_live_entries)
          with live_i y' have "y \<noteq> c" by auto
          moreover from "1.prems"(2) a live_i y' have "\<not> Set_has y (cards (props w x))" by simp
          moreover from a have "cards (props w2 x) = Set_add c (cards (props w x))"
            by (simp add: w2 Deck_add_def Deck_remove_def Let_def)
          ultimately show "\<not> Set_has y (cards (props w2 x))" by (simp add: Set_has_add)
        qed
        from "1.IH" [OF call inv2 guard2] show ?thesis .
      qed
    qed
  qed
qed


lemma deck_inv_merge:
  assumes "Deck_merge this other pile w = Some r" "deck_inv (props w x)"
    and "allowed x (Merge this other pile) w"
  shows "deck_inv (props (snd r) x)"
proof -
  from assms(1) have returns: "merge_forEach this other pile 0 w = Some r"
    by (simp add: Deck_merge_def)
  from assms(3) have
    "x = this \<and> this \<noteq> other \<and> pile \<in> piles \<longrightarrow>
       (\<forall>c \<in> set (live (drop 0 (Set_entries (cards (props w other))))).
          \<not> Set_has c (cards (props w x)))"
    by (auto simp: Set_values_def)
  with returns assms(2) show ?thesis by (rule merge_forEach_inv)
qed

lemma deck_inv_on_deck:
  assumes "deck_inv (props w x)" "\<And>p. deck_inv p \<Longrightarrow> deck_inv (f p)"
  shows "deck_inv (props (on_deck d f w) x)"
  using assms by (simp add: props_on_deck)

lemma deck_inv_exec:
  assumes "deck_inv (props w x)" "allowed x a w" "exec a w = Some w'"
  shows "deck_inv (props w' x)"
proof (cases a)
  case (New d cs)
  with assms show ?thesis by (auto simp: Deck_constructor_def)
next
  case (Add d c pile)
  show ?thesis
  proof (cases "pile \<in> piles")
    case False
    with Add assms show ?thesis by (auto simp: add_invalid_pile)
  next
    case True
    with Add assms show ?thesis
      by (cases "d = x") (auto simp: deck_inv_add props_add_other)
  qed
next
  case (Remove d c)
  with assms show ?thesis
    by (cases "d = x") (auto simp: deck_inv_remove props_remove_other)
next
  case (Merge d other pile)
  with assms(3) obtain r where "Deck_merge d other pile w = Some r" "w' = snd r"
    by auto
  with assms(1,2) Merge show ?thesis by (simp add: deck_inv_merge)
next
  case (Draw d n)
  with assms show ?thesis by (auto intro: deck_inv_on_deck deck_inv_draw)
next
  case (DrawFromBottom d n)
  with assms show ?thesis by (auto intro: deck_inv_on_deck deck_inv_drawFromBottom)
next
  case (DrawToDiscard d n)
  with assms show ?thesis by (auto intro: deck_inv_on_deck deck_inv_drawToDiscard)
next
  case (DrawToDiscardFromBottom d n)
  with assms show ?thesis by (auto intro: deck_inv_on_deck deck_inv_drawToDiscardFromBottom)
next
  case (Discard d v)
  with assms show ?thesis by (auto intro: deck_inv_on_deck deck_inv_discard(1))
next
  case (LocateCard d v)
  with assms show ?thesis by simp
next
  case (ShuffleAll d rnd)
  with assms show ?thesis by (auto intro: deck_inv_on_deck deck_inv_shuffleAll)
next
  case (ShuffleRemaining d rnd)
  with assms show ?thesis by (auto intro: deck_inv_on_deck deck_inv_shuffleRemaining)
next
  case (ShuffleDiscard d rnd)
  with assms show ?thesis by (auto intro: deck_inv_on_deck deck_inv_shuffleDiscard)
next
  case (ShuffleDeckAndDiscard d rnd)
  with assms show ?thesis by (auto intro: deck_inv_on_deck deck_inv_shuffleDeckAndDiscard)
next
  case (DiscardAllHeld d)
  with assms show ?thesis by (auto intro: deck_inv_on_deck deck_inv_discardAllHeld)
next
  case (FindCards d f)
  with assms show ?thesis by simp
qed

lemma deck_inv_run:
  "deck_inv (props w x) \<Longrightarrow> guarded x calls w \<Longrightarrow> run calls w = Some w' \<Longrightarrow>
     deck_inv (props w' x)"
proof (induction calls arbitrary: w)
  case Nil
  then show ?case by simp
next
  case (Cons a calls)
  from Cons.prems(3) obtain w1 where e: "exec a w = Some w1" and r: "run calls w1 = Some w'"
    by (auto split: option.splits)
  from Cons.prems(2) e have al: "allowed x a w" and g: "guarded x calls w1" by simp_all
  from Cons.prems(1) al e have "deck_inv (props w1 x)" by (rule deck_inv_exec)
  from this g r show ?case by (rule Cons.IH)
qed

text \<open>
  C2. In every state reached from a Deck freshly constructed from pairwise distinct
  cards by a sequence of calls of the public methods (on this Deck and on any other)
  in which no valid \<open>add\<close> and no valid \<open>merge\<close> gives the Deck a card that is
  already in its set of cards, every card of the set of cards is in exactly one of
  the three piles, once, and the lengths of the piles add up to the number of cards.
\<close>

theorem pile_invariant_reachable:
  assumes "distinct cs"
    and "guarded x calls (Deck_constructor x cs w)"
    and "run calls (Deck_constructor x cs w) = Some w'"
  shows "pile_invariant (props w' x)"
proof -
  from assms(1) have "deck_inv (props (Deck_constructor x cs w) x)"
    by (rule deck_inv_constructor)
  then have "deck_inv (props w' x)" using assms(2,3) by (rule deck_inv_run)
  then show ?thesis by (rule deck_inv_pile_invariant)
qed


theorem pile_invariant_reachable_witness:
  "distinct [2, 3, 4 :: card] \<and>
   guarded 0 example_calls (Deck_constructor 0 [2, 3, 4] fresh_world) \<and>
   run example_calls (Deck_constructor 0 [2, 3, 4] fresh_world) \<noteq> None \<and>
   pile_invariant (props (the (run example_calls (Deck_constructor 0 [2, 3, 4] fresh_world))) 0)"
proof -
  have d: "distinct [2, 3, 4 :: card]" by simp
  have g: "guarded 0 example_calls (Deck_constructor 0 [2, 3, 4] fresh_world)"
    by code_simp
  have "run example_calls (Deck_constructor 0 [2, 3, 4] fresh_world) \<noteq> None"
    by code_simp
  then obtain w' where r: "run example_calls (Deck_constructor 0 [2, 3, 4] fresh_world) = Some w'"
    by blast
  from pile_invariant_reachable [OF d g r] d g r show ?thesis by simp
qed

text \<open>
  Without that restriction the invariant fails: \<open>add\<close> does not look whether the
  card is already a member. After \<open>d = new Deck([c])\<close> and \<open>d.add(c)\<close> the set of
  cards is \<open>{c}\<close> and the draw pile is \<open>[c, c]\<close>.
\<close>

theorem add_member_again_counterexample:
  "distinct [7 :: card] \<and>
   run [Add 0 7 ''deck''] (Deck_constructor 0 [7] fresh_world) = Some added_twice \<and>
   Set_values (cards (props added_twice 0)) = [7] \<and>
   deck (props added_twice 0) = [7, 7] \<and>
   \<not> pile_invariant (props added_twice 0)"
  by (simp add: added_twice_def pile_invariant_def Deck_add_def Deck_constructor_def
      fresh_world_def piles_def push_pile_def Let_def Set_values_def Set_new_def
      Deck_totalLength_def Set_size_def)

section \<open>Shuffling the discard pile\<close>

text \<open>
  C7. After \<open>shuffleDiscard\<close> the draw pile starts with the old draw pile in its
  order, what follows is a permutation of the old discard pile, the discard pile is
  empty, and the held pile and the set of cards are unchanged. This holds for every
  random source.
\<close>

theorem shuffleDiscard_frame:
  "take (length (deck p)) (deck (Deck_shuffleDiscard rnd p)) = deck p \<and>
   mset (drop (length (deck p)) (deck (Deck_shuffleDiscard rnd p))) = mset (discard p) \<and>
   discard (Deck_shuffleDiscard rnd p) = [] \<and>
   held (Deck_shuffleDiscard rnd p) = held p \<and>
   cards (Deck_shuffleDiscard rnd p) = cards p"
  by (simp add: Deck_shuffleDiscard_def mset_shuffle)

end
